theory Spec2Isabelle
  imports Main "HOL-Library.AList" "HOL-Library.Sublist"
begin

section \<open>Course-folder scripts: the model\<close>

text \<open>
  The two scripts \<^verbatim>\<open>ClassSetup.py\<close> and \<^verbatim>\<open>ClassArchive.py\<close> work on a directory tree,
  print to the terminal and read keys from it. The model makes all of that explicit:
  the directory tree is a value, every function that touches it takes the program state
  and gives back the new one, an exception is a value of type \<open>error\<close>, and the keys a
  menu reads are a list.
\<close>

subsection \<open>Strings of numbers\<close>

text \<open>
  An f-string such as \<^verbatim>\<open>f"Spring {year + 1}"\<close> formats a Python integer in decimal.
\<close>

definition digit_char :: "nat \<Rightarrow> char" where
  "digit_char d = ''0123456789'' ! d"

fun str_nat :: "nat \<Rightarrow> string" where
  "str_nat n = (if n < 10 then [digit_char n] else str_nat (n div 10) @ [digit_char (n mod 10)])"

definition str_int :: "int \<Rightarrow> string" where
  "str_int i = (if i < 0 then CHR ''-'' # str_nat (nat (- i)) else str_nat (nat i))"

subsection \<open>The semester of a date\<close>

text \<open>
  \<^verbatim>\<open>determine_semester\<close> reads \<^verbatim>\<open>datetime.now().month\<close> and \<^verbatim>\<open>datetime.now().year\<close>;
  the two values read are the arguments of the model.
\<close>

definition determine_semester :: "int \<Rightarrow> int \<Rightarrow> string" where
  "determine_semester month year =
     (if 11 \<le> month \<and> month \<le> 12 then ''Spring '' @ str_int (year + 1)
      else if 6 \<le> month \<and> month \<le> 10 then ''Fall '' @ str_int year
      else ''Summer '' @ str_int year)"

subsection \<open>The directory tree\<close>

text \<open>
  A path is the list of its components below the root of the file system, so that
  \<^verbatim>\<open>os.path.join(p, name)\<close> is \<open>p @ [name]\<close> for a name that is one component (not empty,
  not \<^verbatim>\<open>.\<close> or \<^verbatim>\<open>..\<close>, without a separator). A node is a regular file with its contents
  or a directory with its entries. Contents are text, or the entries of a zip archive
  (each an archive name and the contents stored under it). Names are compared as they
  are written (a case-sensitive file system); symbolic links, permissions and a full
  disk are not modelled.
\<close>

type_synonym path = "string list"

datatype fdata = Text string | Zip "(path \<times> fdata) list"

datatype node = File fdata | Dir "(string \<times> node) list"

text \<open>The exceptions of Python that the modelled code can raise.\<close>

datatype error =
    KeyError string
  | IndexError
  | TypeError
  | FileExistsError path
  | FileNotFoundError path
  | NotADirectoryError path
  | IsADirectoryError path
  | PermissionError path

text \<open>
  Path resolution: the node a path leads to, if any. Among the entries of one
  directory the first one of a name counts.
\<close>

fun lookup :: "node \<Rightarrow> path \<Rightarrow> node option" where
  "lookup t [] = Some t"
| "lookup (File d) (n # p) = None"
| "lookup (Dir es) (n # p) = (case map_of es n of None \<Rightarrow> None | Some t \<Rightarrow> lookup t p)"

text \<open>\<^verbatim>\<open>os.path.exists\<close>, \<^verbatim>\<open>os.path.isdir\<close> and \<^verbatim>\<open>os.path.isfile\<close>.\<close>

definition exists_path :: "node \<Rightarrow> path \<Rightarrow> bool" where
  "exists_path t p = (lookup t p \<noteq> None)"

definition isdir :: "node \<Rightarrow> path \<Rightarrow> bool" where
  "isdir t p = (case lookup t p of Some (Dir es) \<Rightarrow> True | _ \<Rightarrow> False)"

definition is_file :: "node \<Rightarrow> path \<Rightarrow> bool" where
  "is_file t p = (case lookup t p of Some (File d) \<Rightarrow> True | _ \<Rightarrow> False)"

text \<open>
  \<^verbatim>\<open>os.listdir\<close>: the names in a directory, each once, in the order the directory holds
  them; it raises on a path that is missing or not a directory.
\<close>

definition listdir :: "node \<Rightarrow> path \<Rightarrow> error + string list" where
  "listdir t p =
     (case lookup t p of
        None \<Rightarrow> Inl (FileNotFoundError p)
      | Some (File d) \<Rightarrow> Inl (NotADirectoryError p)
      | Some (Dir es) \<Rightarrow> Inr (remdups (map fst es)))"

text \<open>
  \<open>graft t p s\<close> puts the node \<open>s\<close> at path \<open>p\<close>, making the directories on the way that
  are missing; there is no result when a regular file is on the way.
  \<open>prune t p\<close> removes the entry at \<open>p\<close> with all below it.
\<close>

fun graft :: "node \<Rightarrow> path \<Rightarrow> node \<Rightarrow> node option" where
  "graft t [] s = Some s"
| "graft (File d) (n # p) s = None"
| "graft (Dir es) (n # p) s =
     (case graft (case map_of es n of None \<Rightarrow> Dir [] | Some t \<Rightarrow> t) p s of
        None \<Rightarrow> None
      | Some t' \<Rightarrow> Some (Dir (AList.update n t' es)))"

fun prune :: "node \<Rightarrow> path \<Rightarrow> node" where
  "prune t [] = t"
| "prune (File d) (n # p) = File d"
| "prune (Dir es) [n] = Dir (AList.delete n es)"
| "prune (Dir es) (n # p) =
     (case map_of es n of None \<Rightarrow> Dir es | Some t \<Rightarrow> Dir (AList.update n (prune t p) es))"

text \<open>
  \<^verbatim>\<open>os.makedirs(p)\<close> creates the directory \<open>p\<close> and every missing directory above it. It
  raises when \<open>p\<close> exists already, and when a component above \<open>p\<close> is a regular file;
  in both cases nothing has been created.
\<close>

definition makedirs :: "node \<Rightarrow> path \<Rightarrow> error + node" where
  "makedirs t p =
     (if exists_path t p then Inl (FileExistsError p)
      else case graft t p (Dir []) of
             None \<Rightarrow> Inl (NotADirectoryError p)
           | Some t' \<Rightarrow> Inr t')"

text \<open>
  \<^verbatim>\<open>open(p, 'w')\<close>, the writes and the close, as one step: the file \<open>p\<close> is created or
  replaced. It raises when \<open>p\<close> is a directory or the directory above \<open>p\<close> is missing.
\<close>

definition write_file :: "node \<Rightarrow> path \<Rightarrow> fdata \<Rightarrow> error + node" where
  "write_file t p d =
     (if isdir t p then Inl (IsADirectoryError p)
      else if \<not> isdir t (butlast p) then
        (if exists_path t (butlast p) then Inl (NotADirectoryError p) else Inl (FileNotFoundError p))
      else case graft t p (File d) of
             None \<Rightarrow> Inl (NotADirectoryError p)
           | Some t' \<Rightarrow> Inr t')"

text \<open>
  \<^verbatim>\<open>shutil.rmtree(p)\<close> removes the directory \<open>p\<close> and all below it. It raises on a path
  that is missing or a regular file; the root itself cannot be removed.
\<close>

definition rmtree :: "node \<Rightarrow> path \<Rightarrow> error + node" where
  "rmtree t p =
     (case lookup t p of
        None \<Rightarrow> Inl (FileNotFoundError p)
      | Some (File d) \<Rightarrow> Inl (NotADirectoryError p)
      | Some (Dir es) \<Rightarrow> if p = [] then Inl (PermissionError p) else Inr (prune t p))"

subsection \<open>The program state\<close>

text \<open>
  The state a run works on: the directory tree, the lines printed so far, and a log of
  the calls that changed the tree (\<^verbatim>\<open>os.makedirs\<close>, a file written, \<^verbatim>\<open>shutil.rmtree\<close>),
  in the order they were made. A function that can raise returns \<open>Inl (e, s)\<close> with the
  exception and the state at the moment it was raised, or \<open>Inr s\<close> with the state it
  returns in.
\<close>

datatype mutation = Makedirs path | WriteFile path | Rmtree path

record state =
  tree :: node
  stdout :: "string list"
  muts :: "mutation list"

definition print :: "string \<Rightarrow> state \<Rightarrow> state" where
  "print line s = s\<lparr>stdout := stdout s @ [line]\<rparr>"

definition final_state :: "error \<times> state + state \<Rightarrow> state" where
  "final_state r = (case r of Inl (e, s) \<Rightarrow> s | Inr s \<Rightarrow> s)"

text \<open>A path as the f-strings print it.\<close>

definition path_str :: "path \<Rightarrow> string" where
  "path_str p = (if p = [] then ''/'' else concat (map (\<lambda>n. CHR ''/'' # n) p))"

subsection \<open>ClassSetup.py: folders for the courses of a semester\<close>

text \<open>
  A course record is the dictionary that \<^verbatim>\<open>response.json()\<close> gives for one course: its
  items in insertion order, field names and values as strings. \<open>subscript d k\<close> is
  \<^verbatim>\<open>d[k]\<close>.
\<close>

type_synonym course = "(string \<times> string) list"

definition subscript :: "course \<Rightarrow> string \<Rightarrow> error + string" where
  "subscript d k = (case map_of d k of None \<Rightarrow> Inl (KeyError k) | Some v \<Rightarrow> Inr v)"

text \<open>
  What the loop \<^verbatim>\<open>for key, value in course_info.items(): f.write(f"{key}: {value}\n")\<close>
  writes.
\<close>

definition info_text :: "course \<Rightarrow> string" where
  "info_text course_info = concat (map (\<lambda>(key, val). key @ '': '' @ val @ [CHR 0x0A]) course_info)"

definition create_folder_with_info :: "state \<Rightarrow> path \<Rightarrow> course \<Rightarrow> error \<times> state + state" where
  "create_folder_with_info s path course_info =
     (if \<not> exists_path (tree s) path then
        (case makedirs (tree s) path of
           Inl e \<Rightarrow> Inl (e, s)
         | Inr t1 \<Rightarrow>
            (let s1 = print (''Folder created: '' @ path_str path)
                        (s\<lparr>tree := t1, muts := muts s @ [Makedirs path]\<rparr>);
                 info_file = path @ [''course_info.txt'']
             in case write_file (tree s1) info_file (Text (info_text course_info)) of
                  Inl e \<Rightarrow> Inl (e, s1)
                | Inr t2 \<Rightarrow>
                    Inr (print (''Info file created: '' @ path_str info_file)
                          (s1\<lparr>tree := t2, muts := muts s1 @ [WriteFile info_file]\<rparr>))))
      else Inr (print (''Folder already exists: '' @ path_str path) s))"

definition get_existing_directories :: "node \<Rightarrow> path \<Rightarrow> error + string list" where
  "get_existing_directories t path =
     (if \<not> exists_path t path then Inr []
      else case listdir t path of
             Inl e \<Rightarrow> Inl e
           | Inr ds \<Rightarrow> Inr (filter (\<lambda>d. isdir t (path @ [d])) ds))"

definition is_directory_empty :: "node \<Rightarrow> path \<Rightarrow> error + bool" where
  "is_directory_empty t dir_path =
     (if exists_path t dir_path \<and> isdir t dir_path then
        (case listdir t dir_path of Inl e \<Rightarrow> Inl e | Inr ns \<Rightarrow> Inr (ns = []))
      else Inr True)"

text \<open>
  \<^verbatim>\<open>synchronize_directories\<close>: the list comprehension of the course names, the loop that
  creates and the loop that deletes are one recursive function each.
\<close>

fun course_names_of :: "course list \<Rightarrow> error + string list" where
  "course_names_of [] = Inr []"
| "course_names_of (course # courses) =
     (case subscript course ''coursename'' of
        Inl e \<Rightarrow> Inl e
      | Inr name \<Rightarrow>
          (case course_names_of courses of Inl e \<Rightarrow> Inl e | Inr names \<Rightarrow> Inr (name # names)))"

fun create_courses :: "state \<Rightarrow> path \<Rightarrow> string list \<Rightarrow> course list \<Rightarrow> error \<times> state + state" where
  "create_courses s semester_path existing_dirs [] = Inr s"
| "create_courses s semester_path existing_dirs (course # courses) =
     (case subscript course ''coursename'' of
        Inl e \<Rightarrow> Inl (e, s)
      | Inr course_name \<Rightarrow>
          if course_name \<notin> set existing_dirs then
            (case create_folder_with_info s (semester_path @ [course_name]) course of
               Inl es \<Rightarrow> Inl es
             | Inr s' \<Rightarrow> create_courses s' semester_path existing_dirs courses)
          else create_courses s semester_path existing_dirs courses)"

text \<open>The line \<^verbatim>\<open>f"Directory '{existing_dir}' is not empty and was not deleted."\<close>.\<close>

definition not_empty_msg :: "string \<Rightarrow> string" where
  "not_empty_msg existing_dir =
     ''Directory '' @ [CHR 0x27] @ existing_dir @ [CHR 0x27] @ '' is not empty and was not deleted.''"

fun delete_dirs :: "state \<Rightarrow> path \<Rightarrow> string list \<Rightarrow> string list \<Rightarrow> error \<times> state + state" where
  "delete_dirs s semester_path course_names [] = Inr s"
| "delete_dirs s semester_path course_names (existing_dir # existing_dirs) =
     (if existing_dir \<notin> set course_names then
        (let dir_to_delete = semester_path @ [existing_dir] in
         case is_directory_empty (tree s) dir_to_delete of
           Inl e \<Rightarrow> Inl (e, s)
         | Inr True \<Rightarrow>
             (case rmtree (tree s) dir_to_delete of
                Inl e \<Rightarrow> Inl (e, s)
              | Inr t' \<Rightarrow>
                  delete_dirs
                    (print (''Deleted directory: '' @ path_str dir_to_delete)
                       (s\<lparr>tree := t', muts := muts s @ [Rmtree dir_to_delete]\<rparr>))
                    semester_path course_names existing_dirs)
         | Inr False \<Rightarrow>
             delete_dirs (print (not_empty_msg existing_dir) s)
               semester_path course_names existing_dirs)
      else delete_dirs s semester_path course_names existing_dirs)"

definition synchronize_directories ::
  "state \<Rightarrow> path \<Rightarrow> string \<Rightarrow> course list \<Rightarrow> error \<times> state + state" where
  "synchronize_directories s onedrive_path semester_name courses =
     (let semester_path = onedrive_path @ [semester_name] in
      case get_existing_directories (tree s) semester_path of
        Inl e \<Rightarrow> Inl (e, s)
      | Inr existing_dirs \<Rightarrow>
          (case course_names_of courses of
             Inl e \<Rightarrow> Inl (e, s)
           | Inr course_names \<Rightarrow>
               (case create_courses s semester_path existing_dirs courses of
                  Inl es \<Rightarrow> Inl es
                | Inr s1 \<Rightarrow> delete_dirs s1 semester_path course_names existing_dirs)))"





subsection \<open>The selection prompts\<close>





text \<open>
  The files of \<^verbatim>\<open>select_json_file\<close> are what \<^verbatim>\<open>response.json()\<close> gave: JSON values.
  \<open>json_subscript v k\<close> is \<^verbatim>\<open>v[k]\<close> for a string \<open>k\<close>. Drawing the menu evaluates
  \<^verbatim>\<open>file['name']\<close> for every file, in every round of the loop.
\<close>

datatype json =
    JNull | JBool bool | JNum int | JStr string | JArr "json list" | JObj "(string \<times> json) list"





subsection \<open>ClassArchive.py: a semester folder as a zip archive\<close>

text \<open>
  \<^verbatim>\<open>os.path.basename\<close> and \<^verbatim>\<open>os.path.relpath\<close> on paths without \<^verbatim>\<open>.\<close> and \<^verbatim>\<open>..\<close>;
  \<^verbatim>\<open>os.path.join(dir_path, '..')\<close> is then \<open>butlast dir_path\<close>.
\<close>

definition basename :: "path \<Rightarrow> string" where
  "basename p = (if p = [] then [] else last p)"

definition relpath :: "path \<Rightarrow> path \<Rightarrow> path" where
  "relpath p start =
     (let common = longest_common_prefix p start
      in replicate (length start - length common) ''..'' @ drop (length common) p)"

text \<open>
  \<^verbatim>\<open>os.walk(top)\<close>, top down: for the directory itself and then for each directory
  below it, the triple of its path, the names of its subdirectories and the names of
  its other entries. On a path that is no directory it yields nothing.
\<close>

definition child_is_dir :: "(string \<times> node) list \<Rightarrow> string \<Rightarrow> bool" where
  "child_is_dir es n = (case map_of es n of Some (Dir ds) \<Rightarrow> True | _ \<Rightarrow> False)"

lemma map_of_size: "map_of es n = Some t \<Longrightarrow> size t < Suc (size_list (size_prod (\<lambda>x. 0) size) es)"
  by (induction es) (auto split: if_splits)

function walk :: "path \<Rightarrow> node \<Rightarrow> (path \<times> string list \<times> string list) list" where
  "walk topdir (File d) = []"
| "walk topdir (Dir es) =
     (let names = remdups (map fst es);
          dirs = filter (child_is_dir es) names;
          nondirs = filter (\<lambda>n. \<not> child_is_dir es n) names
      in (topdir, dirs, nondirs) #
         concat (map (\<lambda>d. case map_of es d of None \<Rightarrow> [] | Some t \<Rightarrow> walk (topdir @ [d]) t) dirs))"
  by pat_completeness auto
termination
  by (relation "measure (\<lambda>(topdir, t). size t)") (auto dest: map_of_size)

definition os_walk :: "node \<Rightarrow> path \<Rightarrow> (path \<times> string list \<times> string list) list" where
  "os_walk t topdir = (case lookup t topdir of None \<Rightarrow> [] | Some n \<Rightarrow> walk topdir n)"

text \<open>
  \<^verbatim>\<open>zipf.write(filename, arcname)\<close> reads the file and stores its contents under the
  archive name. The archive file is created when the \<^verbatim>\<open>ZipFile\<close> is opened and has its
  entries when it is closed.
\<close>

definition read_file :: "node \<Rightarrow> path \<Rightarrow> error + fdata" where
  "read_file t p =
     (case lookup t p of
        None \<Rightarrow> Inl (FileNotFoundError p)
      | Some (Dir es) \<Rightarrow> Inl (IsADirectoryError p)
      | Some (File d) \<Rightarrow> Inr d)"

fun zip_write_files ::
  "node \<Rightarrow> path \<Rightarrow> path \<Rightarrow> string list \<Rightarrow> error + (path \<times> fdata) list" where
  "zip_write_files t dir_path root [] = Inr []"
| "zip_write_files t dir_path root (file # files) =
     (case read_file t (root @ [file]) of
        Inl e \<Rightarrow> Inl e
      | Inr d \<Rightarrow>
         (case zip_write_files t dir_path root files of
            Inl e \<Rightarrow> Inl e
          | Inr entries \<Rightarrow> Inr ((relpath (root @ [file]) (butlast dir_path), d) # entries)))"

fun zip_write_walk ::
  "node \<Rightarrow> path \<Rightarrow> (path \<times> string list \<times> string list) list \<Rightarrow> error + (path \<times> fdata) list" where
  "zip_write_walk t dir_path [] = Inr []"
| "zip_write_walk t dir_path ((root, dirs, files) # rest) =
     (case zip_write_files t dir_path root files of
        Inl e \<Rightarrow> Inl e
      | Inr entries \<Rightarrow>
         (case zip_write_walk t dir_path rest of
            Inl e \<Rightarrow> Inl e
          | Inr later \<Rightarrow> Inr (entries @ later)))"

definition archive_directory :: "state \<Rightarrow> path \<Rightarrow> path \<Rightarrow> error \<times> state + state" where
  "archive_directory s dir_path archive_path =
     (let zip_filename = archive_path @ [basename dir_path @ ''.zip''] in
      case write_file (tree s) zip_filename (Zip []) of
        Inl e \<Rightarrow> Inl (e, s)
      | Inr t1 \<Rightarrow>
         (let s1 = s\<lparr>tree := t1, muts := muts s @ [WriteFile zip_filename]\<rparr> in
          case zip_write_walk t1 dir_path (os_walk t1 dir_path) of
            Inl e \<Rightarrow> Inl (e, s1)
          | Inr entries \<Rightarrow>
             (case write_file t1 zip_filename (Zip entries) of
                Inl e \<Rightarrow> Inl (e, s1)
              | Inr t2 \<Rightarrow>
                  Inr (print (''Archived '' @ [CHR 0x27] @ path_str dir_path @ [CHR 0x27] @ '' to '' @
                              [CHR 0x27] @ path_str zip_filename @ [CHR 0x27] @ ''.'')
                         (s1\<lparr>tree := t2\<rparr>)))))"

text \<open>The archive directory of the main program, \<^verbatim>\<open>"/Volumes/Austin Disk/UT Austin/"\<close>.\<close>

definition archive_path_main :: path where
  "archive_path_main = [''Volumes'', ''Austin Disk'', ''UT Austin'']"

subsection \<open>Example runs\<close>


definition demo_courses :: "course list" where
  "demo_courses = [[(''coursename'', ''CS314'')], [(''coursename'', ''M408''), (''prof'', ''X'')]]"

definition demo_after :: state where
  "demo_after = \<lparr>tree = Dir [(''OneDrive'', Dir [(''Spring 2024'',
              Dir [(''CS314'', Dir []),
                   (''KEEP'', Dir [(''notes.txt'', File (Text ''hi''))]),
                   (''todo.txt'', File (Text ''x'')),
                   (''M408'', Dir [(''course_info.txt'',
                       File (Text (''coursename: M408'' @ [CHR 0x0A] @ ''prof: X'' @ [CHR 0x0A])))])])])],
           stdout = [''Folder created: /OneDrive/Spring 2024/M408'',
                     ''Info file created: /OneDrive/Spring 2024/M408/course_info.txt'',
                     ''Deleted directory: /OneDrive/Spring 2024/OLD101'',
                     not_empty_msg ''KEEP''],
           muts = [Makedirs [''OneDrive'', ''Spring 2024'', ''M408''],
                   WriteFile [''OneDrive'', ''Spring 2024'', ''M408'', ''course_info.txt''],
                   Rmtree [''OneDrive'', ''Spring 2024'', ''OLD101'']]\<rparr>"



text \<open>A semester folder with a file, a course folder and an empty folder, archived.\<close>

definition archive_demo :: state where
  "archive_demo =
     \<lparr>tree = Dir [(''Users'', Dir [(''OneDrive'', Dir [(''Fall 2023'',
                Dir [(''syllabus.txt'', File (Text ''1'')),
                     (''CS314'', Dir [(''course_info.txt'', File (Text ''2''))]),
                     (''empty'', Dir [])])])]),
                  (''Volumes'', Dir [(''Austin Disk'', Dir [(''UT Austin'', Dir [])])])],
      stdout = [], muts = []\<rparr>"

definition archive_demo_after :: state where
  "archive_demo_after =
     \<lparr>tree = Dir [(''Users'', Dir [(''OneDrive'', Dir [(''Fall 2023'',
                Dir [(''syllabus.txt'', File (Text ''1'')),
                     (''CS314'', Dir [(''course_info.txt'', File (Text ''2''))]),
                     (''empty'', Dir [])])])]),
                  (''Volumes'', Dir [(''Austin Disk'', Dir [(''UT Austin'',
                     Dir [(''Fall 2023.zip'',
                       File (Zip [([''Fall 2023'', ''syllabus.txt''], Text ''1''),
                                  ([''Fall 2023'', ''CS314'', ''course_info.txt''], Text ''2'')]))])])])],
      stdout = [''Archived '' @ [CHR 0x27] @ ''/Users/OneDrive/Fall 2023'' @ [CHR 0x27] @ '' to '' @
                  [CHR 0x27] @ ''/Volumes/Austin Disk/UT Austin/Fall 2023.zip'' @ [CHR 0x27] @ ''.''],
      muts = [WriteFile [''Volumes'', ''Austin Disk'', ''UT Austin'', ''Fall 2023.zip'']]\<rparr>"

section \<open>Lemmas\<close>

subsection \<open>Paths in the tree\<close>

lemma lookup_append:
  "lookup t (p @ q) = (case lookup t p of None \<Rightarrow> None | Some u \<Rightarrow> lookup u q)"
  by (induction t p rule: lookup.induct) (auto split: option.splits)

lemma lookup_snoc_Dir: "lookup t p = Some (Dir es) \<Longrightarrow> lookup t (p @ [n]) = map_of es n"
  by (simp add: lookup_append split: option.splits)

lemma lookup_snoc_File: "lookup t p = Some (File d) \<Longrightarrow> lookup t (p @ [n]) = None"
  by (simp add: lookup_append)


lemma graft_same: "graft t p s = Some t' \<Longrightarrow> lookup t' p = Some s"
  by (induction t p s arbitrary: t' rule: graft.induct)
     (auto split: option.splits simp: update_conv')

lemma graft_frame:
  "graft t p s = Some t' \<Longrightarrow> \<not> prefix p q \<Longrightarrow> \<not> prefix q p \<Longrightarrow> lookup t' q = lookup t q"
proof (induction t p s arbitrary: t' q rule: graft.induct)
  case (1 t s)
  then show ?case by simp
next
  case (2 d n p s)
  then show ?case by simp
next
  case (3 es n p s)
  from "3.prems" obtain m q' where q: "q = m # q'" by (cases q) auto
  from "3.prems"(1) obtain u where
    u: "graft (case map_of es n of None \<Rightarrow> Dir [] | Some t \<Rightarrow> t) p s = Some u"
    and t': "t' = Dir (AList.update n u es)"
    by (auto split: option.splits)
  show ?case
  proof (cases "m = n")
    case True
    with "3.prems" q have np: "\<not> prefix p q'" "\<not> prefix q' p" by auto
    then have q'ne: "q' \<noteq> []" by auto
    have "lookup u q' = lookup (case map_of es n of None \<Rightarrow> Dir [] | Some t \<Rightarrow> t) q'"
      using "3.IH" [OF u np] .
    moreover have "lookup (Dir []) q' = None" using q'ne by (cases q') auto
    ultimately show ?thesis using True q t'
      by (auto simp: update_conv' split: option.splits)
  next
    case False
    then show ?thesis using q t' by (simp add: update_conv')
  qed
qed



lemma graft_prefix_isdir:
  "graft t p s = Some t' \<Longrightarrow> strict_prefix q p \<Longrightarrow> isdir t' q"
proof (induction t p s arbitrary: t' q rule: graft.induct)
  case (1 t s)
  then show ?case by simp
next
  case (2 d n p s)
  then show ?case by simp
next
  case (3 es n p s)
  from "3.prems"(1) obtain u where
    u: "graft (case map_of es n of None \<Rightarrow> Dir [] | Some t \<Rightarrow> t) p s = Some u"
    and t': "t' = Dir (AList.update n u es)"
    by (auto split: option.splits)
  show ?case
  proof (cases q)
    case Nil
    then show ?thesis using t' by (simp add: isdir_def)
  next
    case (Cons m q')
    with "3.prems"(2) have m: "m = n" and sp: "strict_prefix q' p" by auto
    have "isdir u q'" using "3.IH" [OF u sp] .
    then show ?thesis using Cons m t' by (simp add: isdir_def update_conv')
  qed
qed

lemma exists_prefix_isdir:
  "lookup t p \<noteq> None \<Longrightarrow> strict_prefix q p \<Longrightarrow> isdir t q"
proof (induction t p arbitrary: q rule: lookup.induct)
  case (1 t)
  then show ?case by simp
next
  case (2 d n p)
  then show ?case by simp
next
  case (3 es n p)
  show ?case
  proof (cases q)
    case Nil
    then show ?thesis by (simp add: isdir_def)
  next
    case (Cons m q')
    with "3.prems"(2) have m: "m = n" and sp: "strict_prefix q' p" by auto
    from "3.prems"(1) obtain u where u: "map_of es n = Some u" and l: "lookup u p \<noteq> None"
      by (auto split: option.splits)
    have "isdir u q'" using "3.IH" [OF u l sp] .
    then show ?thesis using Cons m u by (simp add: isdir_def)
  qed
qed

lemma graft_fails_iff:
  "graft t p s = None \<longleftrightarrow> (\<exists>q d. strict_prefix q p \<and> lookup t q = Some (File d))"
proof (induction t p s rule: graft.induct)
  case (1 t s)
  then show ?case by simp
next
  case (2 d n p s)
  have "strict_prefix [] (n # p)" by simp
  then show ?case by (metis graft.simps(2) lookup.simps(1))
next
  case (3 es n p s)
  let ?c = "case map_of es n of None \<Rightarrow> Dir [] | Some t \<Rightarrow> t"
  have emp: "\<And>q. lookup (Dir []) q \<noteq> Some (File d)" for d
    by (case_tac q) auto
  have "(\<exists>q d. strict_prefix q (n # p) \<and> lookup (Dir es) q = Some (File d)) \<longleftrightarrow>
        (\<exists>q d. strict_prefix q p \<and> lookup ?c q = Some (File d))"
    (is "?L \<longleftrightarrow> ?R")
  proof
    assume ?L
    then obtain q d where sp: "strict_prefix q (n # p)" and l: "lookup (Dir es) q = Some (File d)"
      by blast
    from l obtain m q' where q: "q = m # q'" by (cases q) auto
    with sp have "m = n" "strict_prefix q' p" by auto
    with l q show ?R by (auto split: option.splits)
  next
    assume ?R
    then obtain q d where sp: "strict_prefix q p" and l: "lookup ?c q = Some (File d)" by blast
    then obtain u where u: "map_of es n = Some u" using emp by (cases "map_of es n") auto
    have "strict_prefix (n # q) (n # p)" using sp by simp
    moreover have "lookup (Dir es) (n # q) = Some (File d)" using l u by simp
    ultimately show ?L by blast
  qed
  with "3.IH" show ?case by (auto split: option.splits)
qed







lemma exists_path_prefix_isdir: "exists_path t p \<Longrightarrow> strict_prefix q p \<Longrightarrow> isdir t q"
  unfolding exists_path_def by (rule exists_prefix_isdir)


subsection \<open>Provisioning and synchronisation\<close>









lemma snoc_not_prefix: "a \<noteq> b \<Longrightarrow> \<not> prefix (p @ [a]) (p @ [b])"
  by simp












lemma isdir_iff: "isdir t p \<longleftrightarrow> (\<exists>es. lookup t p = Some (Dir es))"
  by (auto simp: isdir_def split: option.splits node.splits)

























subsection \<open>The selection prompts\<close>









subsection \<open>Walking and archiving\<close>

lemma longest_common_prefix_append: "longest_common_prefix (b @ x) b = b"
  by (induction b) auto

lemma relpath_under_parent:
  "dir_path \<noteq> [] \<Longrightarrow> relpath (dir_path @ r) (butlast dir_path) = last dir_path # r"
proof -
  assume ne: "dir_path \<noteq> []"
  then have d: "dir_path @ r = butlast dir_path @ (last dir_path # r)"
    by (metis append_butlast_last_id append.assoc append_Cons append_Nil)
  show ?thesis
    unfolding relpath_def d by (simp add: longest_common_prefix_append Let_def)
qed

lemma child_is_dir_iff: "child_is_dir es n \<longleftrightarrow> (\<exists>ds. map_of es n = Some (Dir ds))"
  by (auto simp: child_is_dir_def split: option.splits node.splits)

lemma map_of_in_names: "map_of es n = Some t \<Longrightarrow> n \<in> set (remdups (map fst es))"
  by (auto dest: map_of_SomeD intro: rev_image_eqI)

lemma in_names_map_of: "n \<in> set (remdups (map fst es)) \<Longrightarrow> \<exists>t. map_of es n = Some t"
  by (cases "map_of es n") (auto simp: map_of_eq_None_iff)

lemma bex_case_option:
  "(\<exists>d \<in> D. w \<in> set (case f d of None \<Rightarrow> [] | Some t \<Rightarrow> g d t)) \<longleftrightarrow>
   (\<exists>d t. d \<in> D \<and> f d = Some t \<and> w \<in> set (g d t))"
proof -
  have "w \<in> set (case f d of None \<Rightarrow> [] | Some t \<Rightarrow> g d t) \<longleftrightarrow>
        (\<exists>t. f d = Some t \<and> w \<in> set (g d t))" for d
    by (cases "f d") auto
  then show ?thesis by blast
qed

lemma walk_Dir_mem:
  "w \<in> set (walk topdir (Dir es)) \<longleftrightarrow>
     w = (topdir, filter (child_is_dir es) (remdups (map fst es)),
                  filter (\<lambda>n. \<not> child_is_dir es n) (remdups (map fst es))) \<or>
     (\<exists>d t. d \<in> set (filter (child_is_dir es) (remdups (map fst es))) \<and> map_of es d = Some t \<and>
            w \<in> set (walk (topdir @ [d]) t))"
  by (simp only: walk.simps Let_def set_simps set_concat set_map insert_iff UN_iff image_iff
        bex_simps bex_case_option [symmetric])

lemma walk_lists_files:
  "(\<exists>root dirs files f. (root, dirs, files) \<in> set (walk topdir n) \<and> f \<in> set files \<and> x = root @ [f]) \<longleftrightarrow>
   (\<exists>r d. r \<noteq> [] \<and> x = topdir @ r \<and> lookup n r = Some (File d))"
proof (induction topdir n arbitrary: x rule: walk.induct)
  case (1 topdir d)
  have "lookup (File d) r = None" if "r \<noteq> []" for r using that by (cases r) auto
  then show ?case by auto
next
  case (2 topdir es)
  let ?names = "remdups (map fst es)"
  let ?dirs = "filter (child_is_dir es) ?names"
  let ?nondirs = "filter (\<lambda>n. \<not> child_is_dir es n) ?names"
  have IH: "(\<exists>root dirs files f. (root, dirs, files) \<in> set (walk (topdir @ [d]) t) \<and> f \<in> set files \<and>
                y = root @ [f]) \<longleftrightarrow>
            (\<exists>r c. r \<noteq> [] \<and> y = (topdir @ [d]) @ r \<and> lookup t r = Some (File c))"
    if "d \<in> set ?dirs" "map_of es d = Some t" for d t y
    using "2.IH" [OF refl refl refl that] .
  show ?case
  proof
    assume "\<exists>root dirs files f. (root, dirs, files) \<in> set (walk topdir (Dir es)) \<and> f \<in> set files \<and>
              x = root @ [f]"
    then obtain root dirs files f where
      w: "(root, dirs, files) \<in> set (walk topdir (Dir es))" and f: "f \<in> set files" and x: "x = root @ [f]"
      by blast
    from w consider "root = topdir" "files = ?nondirs"
      | d t where "d \<in> set ?dirs" "map_of es d = Some t" "(root, dirs, files) \<in> set (walk (topdir @ [d]) t)"
      unfolding walk_Dir_mem by auto
    then show "\<exists>r d. r \<noteq> [] \<and> x = topdir @ r \<and> lookup (Dir es) r = Some (File d)"
    proof cases
      case 1
      with f have "f \<in> set ?names" "\<not> child_is_dir es f" by auto
      then obtain c where "map_of es f = Some (File c)"
        using in_names_map_of [of f es] by (auto simp: child_is_dir_iff) (metis node.exhaust)
      then have "lookup (Dir es) [f] = Some (File c)" by simp
      then show ?thesis using x 1 by blast
    next
      case 2
      then obtain r c where r: "r \<noteq> []" "x = (topdir @ [d]) @ r" "lookup t r = Some (File c)"
        using IH [OF 2(1,2), of x] f x by blast
      then have "lookup (Dir es) (d # r) = Some (File c)" using 2(2) by simp
      then show ?thesis using r(2) by (intro exI [of _ "d # r"] exI [of _ c]) simp
    qed
  next
    assume "\<exists>r d. r \<noteq> [] \<and> x = topdir @ r \<and> lookup (Dir es) r = Some (File d)"
    then obtain r c where r: "r \<noteq> []" "x = topdir @ r" "lookup (Dir es) r = Some (File c)" by blast
    then obtain m r' where mr: "r = m # r'" by (cases r) auto
    with r(3) obtain t where t: "map_of es m = Some t" "lookup t r' = Some (File c)"
      by (auto split: option.splits)
    have mn: "m \<in> set ?names" using t(1) by (rule map_of_in_names)
    show "\<exists>root dirs files f. (root, dirs, files) \<in> set (walk topdir (Dir es)) \<and> f \<in> set files \<and>
              x = root @ [f]"
    proof (cases r')
      case Nil
      then have "map_of es m = Some (File c)" using t by simp
      then have "m \<in> set ?nondirs" using mn by (simp add: child_is_dir_iff)
      moreover have "(topdir, ?dirs, ?nondirs) \<in> set (walk topdir (Dir es))"
        unfolding walk_Dir_mem by simp
      ultimately show ?thesis using r(2) mr Nil by blast
    next
      case (Cons a list)
      then obtain ds where ds: "t = Dir ds" using t(2) by (cases t) auto
      then have md: "m \<in> set ?dirs" using mn t(1) by (simp add: child_is_dir_iff)
      have "r' \<noteq> []" using Cons by simp
      then obtain root dirs files f where
        w: "(root, dirs, files) \<in> set (walk (topdir @ [m]) t)" "f \<in> set files" "x = root @ [f]"
        using IH [OF md t(1), of x] t(2) r(2) mr by auto
      have "(root, dirs, files) \<in> set (walk topdir (Dir es))"
        unfolding walk_Dir_mem using w(1) md t(1) by blast
      then show ?thesis using w(2,3) by blast
    qed
  qed
qed

lemma zip_write_files_ok:
  assumes "\<forall>f \<in> set files. \<exists>d. lookup t (root @ [f]) = Some (File d)"
  shows "\<exists>entries. zip_write_files t dir_path root files = Inr entries \<and>
           (\<forall>a d. (a, d) \<in> set entries \<longleftrightarrow>
              (\<exists>f \<in> set files. a = relpath (root @ [f]) (butlast dir_path) \<and>
                   lookup t (root @ [f]) = Some (File d)))"
  using assms
proof (induction files)
  case Nil
  then show ?case by simp
next
  case (Cons f files)
  then obtain c where c: "lookup t (root @ [f]) = Some (File c)" by auto
  from Cons obtain entries where e: "zip_write_files t dir_path root files = Inr entries"
    "\<forall>a d. (a, d) \<in> set entries \<longleftrightarrow>
       (\<exists>f \<in> set files. a = relpath (root @ [f]) (butlast dir_path) \<and>
            lookup t (root @ [f]) = Some (File d))" by auto
  have "zip_write_files t dir_path root (f # files) =
          Inr ((relpath (root @ [f]) (butlast dir_path), c) # entries)"
    using c e(1) by (simp add: read_file_def)
  moreover have "\<forall>a d. (a, d) \<in> set ((relpath (root @ [f]) (butlast dir_path), c) # entries) \<longleftrightarrow>
       (\<exists>g \<in> set (f # files). a = relpath (root @ [g]) (butlast dir_path) \<and>
            lookup t (root @ [g]) = Some (File d))"
    using e(2) c by auto
  ultimately show ?case by blast
qed

lemma zip_write_walk_ok:
  assumes "\<forall>(root, dirs, files) \<in> set w. \<forall>f \<in> set files. \<exists>d. lookup t (root @ [f]) = Some (File d)"
  shows "\<exists>entries. zip_write_walk t dir_path w = Inr entries \<and>
           (\<forall>a d. (a, d) \<in> set entries \<longleftrightarrow>
              (\<exists>root dirs files f. (root, dirs, files) \<in> set w \<and> f \<in> set files \<and>
                   a = relpath (root @ [f]) (butlast dir_path) \<and>
                   lookup t (root @ [f]) = Some (File d)))"
  using assms
proof (induction w)
  case Nil
  then show ?case by simp
next
  case (Cons x w)
  obtain root dirs files where x: "x = (root, dirs, files)" by (cases x)
  have "\<forall>f \<in> set files. \<exists>d. lookup t (root @ [f]) = Some (File d)" using Cons.prems x by auto
  from zip_write_files_ok [OF this, of dir_path] obtain e1 where e1:
    "zip_write_files t dir_path root files = Inr e1"
    "\<forall>a d. (a, d) \<in> set e1 \<longleftrightarrow>
       (\<exists>f \<in> set files. a = relpath (root @ [f]) (butlast dir_path) \<and>
            lookup t (root @ [f]) = Some (File d))" by blast
  from Cons obtain e2 where e2: "zip_write_walk t dir_path w = Inr e2"
    "\<forall>a d. (a, d) \<in> set e2 \<longleftrightarrow>
        (\<exists>root dirs files f. (root, dirs, files) \<in> set w \<and> f \<in> set files \<and>
             a = relpath (root @ [f]) (butlast dir_path) \<and>
             lookup t (root @ [f]) = Some (File d))" by auto
  have "zip_write_walk t dir_path (x # w) = Inr (e1 @ e2)" using x e1(1) e2(1) by simp
  moreover have "\<forall>a d. (a, d) \<in> set (e1 @ e2) \<longleftrightarrow>
        (\<exists>root dirs files f. (root, dirs, files) \<in> set (x # w) \<and> f \<in> set files \<and>
             a = relpath (root @ [f]) (butlast dir_path) \<and>
             lookup t (root @ [f]) = Some (File d))"
  proof (intro allI)
    fix a d
    have "(a, d) \<in> set (e1 @ e2) \<longleftrightarrow> (a, d) \<in> set e1 \<or> (a, d) \<in> set e2" by simp
    also have "\<dots> \<longleftrightarrow>
       (\<exists>f \<in> set files. a = relpath (root @ [f]) (butlast dir_path) \<and>
            lookup t (root @ [f]) = Some (File d)) \<or>
       (\<exists>root dirs files f. (root, dirs, files) \<in> set w \<and> f \<in> set files \<and>
             a = relpath (root @ [f]) (butlast dir_path) \<and>
             lookup t (root @ [f]) = Some (File d))"
      using e1(2) e2(2) by simp
    also have "\<dots> \<longleftrightarrow>
        (\<exists>root dirs files f. (root, dirs, files) \<in> set (x # w) \<and> f \<in> set files \<and>
             a = relpath (root @ [f]) (butlast dir_path) \<and>
             lookup t (root @ [f]) = Some (File d))"
      unfolding x by (simp only: set_simps insert_iff) blast
    finally show "(a, d) \<in> set (e1 @ e2) \<longleftrightarrow>
        (\<exists>root dirs files f. (root, dirs, files) \<in> set (x # w) \<and> f \<in> set files \<and>
             a = relpath (root @ [f]) (butlast dir_path) \<and>
             lookup t (root @ [f]) = Some (File d))" .
  qed
  ultimately show ?case by blast
qed

lemma os_walk_files:
  assumes "lookup t dir_path = Some n"
  shows "(\<exists>root dirs files f. (root, dirs, files) \<in> set (os_walk t dir_path) \<and> f \<in> set files \<and>
            x = root @ [f]) \<longleftrightarrow>
         (\<exists>r d. r \<noteq> [] \<and> x = dir_path @ r \<and> lookup t (dir_path @ r) = Some (File d))"
  using walk_lists_files [of dir_path n x] assms by (simp add: os_walk_def lookup_append)

lemma archive_entries:
  assumes "lookup t dir_path = Some n" and "dir_path \<noteq> []"
  shows "\<exists>entries. zip_write_walk t dir_path (os_walk t dir_path) = Inr entries \<and>
           (\<forall>a d. (a, d) \<in> set entries \<longleftrightarrow>
              (\<exists>r. r \<noteq> [] \<and> a = last dir_path # r \<and> lookup t (dir_path @ r) = Some (File d)))"
proof -
  have files: "\<exists>r d. r \<noteq> [] \<and> root @ [f] = dir_path @ r \<and> lookup t (dir_path @ r) = Some (File d)"
    if "(root, dirs, files) \<in> set (os_walk t dir_path)" "f \<in> set files" for root dirs files f
    using os_walk_files [OF assms(1), of "root @ [f]"] that by blast
  have "\<forall>(root, dirs, files) \<in> set (os_walk t dir_path). \<forall>f \<in> set files.
          \<exists>d. lookup t (root @ [f]) = Some (File d)"
  proof (intro ballI, clarify)
    fix root dirs files f
    assume "(root, dirs, files) \<in> set (os_walk t dir_path)" "f \<in> set files"
    from files [OF this] show "\<exists>d. lookup t (root @ [f]) = Some (File d)" by metis
  qed
  from zip_write_walk_ok [OF this, of dir_path] obtain entries where e:
    "zip_write_walk t dir_path (os_walk t dir_path) = Inr entries"
    "\<forall>a d. (a, d) \<in> set entries \<longleftrightarrow>
        (\<exists>root dirs files f. (root, dirs, files) \<in> set (os_walk t dir_path) \<and> f \<in> set files \<and>
             a = relpath (root @ [f]) (butlast dir_path) \<and>
             lookup t (root @ [f]) = Some (File d))" by blast
  have "\<forall>a d. (a, d) \<in> set entries \<longleftrightarrow>
              (\<exists>r. r \<noteq> [] \<and> a = last dir_path # r \<and> lookup t (dir_path @ r) = Some (File d))"
  proof (intro allI iffI)
    fix a d assume "(a, d) \<in> set entries"
    then obtain root dirs files f where
      w: "(root, dirs, files) \<in> set (os_walk t dir_path)" "f \<in> set files"
         "a = relpath (root @ [f]) (butlast dir_path)" "lookup t (root @ [f]) = Some (File d)"
      using e(2) by blast
    from files [OF w(1,2)] obtain r where r: "r \<noteq> []" "root @ [f] = dir_path @ r" by blast
    have "a = last dir_path # r" using w(3) r(2) relpath_under_parent [OF assms(2)] by simp
    moreover have "lookup t (dir_path @ r) = Some (File d)" using w(4) r(2) by simp
    ultimately show "\<exists>r. r \<noteq> [] \<and> a = last dir_path # r \<and> lookup t (dir_path @ r) = Some (File d)"
      using r(1) by blast
  next
    fix a d assume "\<exists>r. r \<noteq> [] \<and> a = last dir_path # r \<and> lookup t (dir_path @ r) = Some (File d)"
    then obtain r where r: "r \<noteq> []" "a = last dir_path # r" "lookup t (dir_path @ r) = Some (File d)"
      by blast
    then obtain root dirs files f where
      w: "(root, dirs, files) \<in> set (os_walk t dir_path)" "f \<in> set files" "dir_path @ r = root @ [f]"
      using os_walk_files [OF assms(1), of "dir_path @ r"] by blast
    have "a = relpath (root @ [f]) (butlast dir_path)"
      using r(2) w(3) relpath_under_parent [OF assms(2), of r] by simp
    moreover have "lookup t (root @ [f]) = Some (File d)" using r(3) w(3) by simp
    ultimately show "(a, d) \<in> set entries" using e(2) w(1,2) by blast
  qed
  then show ?thesis using e(1) by blast
qed

lemma write_file_Inr:
  "write_file t p d = Inr t' \<longleftrightarrow> \<not> isdir t p \<and> isdir t (butlast p) \<and> graft t p (File d) = Some t'"
  by (auto simp: write_file_def split: option.splits)

lemma write_file_ok:
  assumes "\<not> isdir t p" and "isdir t (butlast p)"
  shows "\<exists>t'. write_file t p d = Inr t'"
proof -
  have "graft t p (File d) \<noteq> None"
  proof
    assume "graft t p (File d) = None"
    then obtain q c where q: "strict_prefix q p" "lookup t q = Some (File c)"
      by (auto simp: graft_fails_iff)
    then have "p \<noteq> []" by auto
    then have "prefix q (butlast p)" using q(1)
      by (metis append_butlast_last_id prefix_order.le_less prefix_snoc strict_prefix_def)
    then have "q = butlast p \<or> strict_prefix q (butlast p)" by (auto simp: strict_prefix_def)
    then have "isdir t q"
      using assms(2) exists_path_prefix_isdir [of t "butlast p" q]
      by (auto simp: exists_path_def isdir_iff)
    then show False using q(2) by (simp add: isdir_def)
  qed
  then show ?thesis using assms by (auto simp: write_file_Inr)
qed

lemma under_dir_frame:
  assumes "\<not> prefix dir_path z" and "\<not> prefix z dir_path"
  shows "\<not> prefix z (dir_path @ r) \<and> \<not> prefix (dir_path @ r) z"
proof -
  have "prefix z dir_path \<or> prefix dir_path z" if "prefix z (dir_path @ r)"
    using that prefix_same_cases [of z "dir_path @ r" dir_path] by simp
  moreover have "prefix dir_path z" if "prefix (dir_path @ r) z"
    using that by (meson prefix_order.trans prefixI)
  ultimately show ?thesis using assms by blast
qed

lemma zip_not_above_source:
  assumes "isdir t dir_path" and "\<not> isdir t z"
  shows "\<not> prefix z dir_path"
proof
  assume "prefix z dir_path"
  then have "z = dir_path \<or> strict_prefix z dir_path" by (auto simp: strict_prefix_def)
  then have "isdir t z"
    using assms(1) exists_path_prefix_isdir [of t dir_path z]
    by (auto simp: exists_path_def isdir_iff)
  then show False using assms(2) by simp
qed

lemma archive_directory_run:
  assumes "isdir (tree s) dir_path" and "dir_path \<noteq> []"
    and "\<not> prefix dir_path (archive_path @ [basename dir_path @ ''.zip''])"
    and "\<not> isdir (tree s) (archive_path @ [basename dir_path @ ''.zip''])"
    and "isdir (tree s) archive_path"
  shows "\<exists>entries t2.
     (\<forall>a d. (a, d) \<in> set entries \<longleftrightarrow>
        (\<exists>r. r \<noteq> [] \<and> a = basename dir_path # r \<and> lookup (tree s) (dir_path @ r) = Some (File d))) \<and>
     lookup t2 (archive_path @ [basename dir_path @ ''.zip'']) = Some (File (Zip entries)) \<and>
     (\<forall>q. \<not> prefix (archive_path @ [basename dir_path @ ''.zip'']) q \<and>
          \<not> prefix q (archive_path @ [basename dir_path @ ''.zip'']) \<longrightarrow>
          lookup t2 q = lookup (tree s) q) \<and>
     archive_directory s dir_path archive_path =
       Inr \<lparr>tree = t2,
            stdout = stdout s @ [''Archived '' @ [CHR 0x27] @ path_str dir_path @ [CHR 0x27] @ '' to '' @
                       [CHR 0x27] @ path_str (archive_path @ [basename dir_path @ ''.zip'']) @
                       [CHR 0x27] @ ''.''],
            muts = muts s @ [WriteFile (archive_path @ [basename dir_path @ ''.zip''])]\<rparr>"
proof -
  let ?z = "archive_path @ [basename dir_path @ ''.zip'']"
  have bl: "butlast ?z = archive_path" by simp
  obtain t1 where w1: "write_file (tree s) ?z (Zip []) = Inr t1"
    using write_file_ok [OF assms(4)] assms(5) bl by metis
  then have g1: "graft (tree s) ?z (File (Zip [])) = Some t1" by (simp add: write_file_Inr)
  have nz: "\<not> prefix ?z dir_path" using zip_not_above_source [OF assms(1,4)] .
  have fr1: "lookup t1 (dir_path @ r) = lookup (tree s) (dir_path @ r)" for r
    using graft_frame [OF g1, of "dir_path @ r"] under_dir_frame [OF assms(3) nz, of r] by blast
  obtain es where es: "lookup (tree s) dir_path = Some (Dir es)" using assms(1) by (auto simp: isdir_iff)
  then have l1: "lookup t1 dir_path = Some (Dir es)" using fr1 [of "[]"] by simp
  from archive_entries [OF l1 assms(2)] obtain entries where e:
    "zip_write_walk t1 dir_path (os_walk t1 dir_path) = Inr entries"
    "\<forall>a d. (a, d) \<in> set entries \<longleftrightarrow>
        (\<exists>r. r \<noteq> [] \<and> a = last dir_path # r \<and> lookup t1 (dir_path @ r) = Some (File d))" by blast
  have z1: "lookup t1 ?z = Some (File (Zip []))" using g1 by (rule graft_same)
  then have nd1: "\<not> isdir t1 ?z" by (simp add: isdir_def)
  have "isdir t1 archive_path"
    using graft_prefix_isdir [OF g1, of archive_path] by (simp add: strict_prefix_def)
  then have "isdir t1 (butlast ?z)" using bl by simp
  then obtain t2 where w2: "write_file t1 ?z (Zip entries) = Inr t2"
    using write_file_ok [OF nd1] by blast
  then have g2: "graft t1 ?z (File (Zip entries)) = Some t2" by (simp add: write_file_Inr)
  have "\<forall>a d. (a, d) \<in> set entries \<longleftrightarrow>
        (\<exists>r. r \<noteq> [] \<and> a = basename dir_path # r \<and> lookup (tree s) (dir_path @ r) = Some (File d))"
    using e(2) fr1 assms(2) by (simp add: basename_def)
  moreover have "lookup t2 ?z = Some (File (Zip entries))" using g2 by (rule graft_same)
  moreover have "\<forall>q. \<not> prefix ?z q \<and> \<not> prefix q ?z \<longrightarrow> lookup t2 q = lookup (tree s) q"
    using graft_frame [OF g1] graft_frame [OF g2] by simp
  moreover have "archive_directory s dir_path archive_path =
       Inr \<lparr>tree = t2,
            stdout = stdout s @ [''Archived '' @ [CHR 0x27] @ path_str dir_path @ [CHR 0x27] @ '' to '' @
                       [CHR 0x27] @ path_str ?z @ [CHR 0x27] @ ''.''],
            muts = muts s @ [WriteFile ?z]\<rparr>"
    using w1 e(1) w2 by (simp add: archive_directory_def Let_def print_def)
  ultimately show ?thesis by blast
qed

lemma archive_directory_fails:
  assumes "isdir (tree s) (archive_path @ [basename dir_path @ ''.zip'']) \<or> \<not> isdir (tree s) archive_path"
  shows "\<exists>e. archive_directory s dir_path archive_path = Inl (e, s)"
proof -
  let ?z = "archive_path @ [basename dir_path @ ''.zip'']"
  have "butlast ?z = archive_path" by simp
  then have "\<exists>e. write_file (tree s) ?z (Zip []) = Inl e"
    using assms by (cases "write_file (tree s) ?z (Zip [])") (auto simp: write_file_Inr)
  then show ?thesis by (auto simp: archive_directory_def Let_def)
qed

lemma archive_demo_run:
  "archive_directory archive_demo [''Users'', ''OneDrive'', ''Fall 2023''] archive_path_main = Inr archive_demo_after"
  by (simp add: archive_demo_def archive_demo_after_def archive_path_main_def archive_directory_def
      basename_def write_file_def isdir_def exists_path_def os_walk_def child_is_dir_def Let_def
      read_file_def relpath_def print_def path_str_def)

subsection \<open>Descriptor lines and the example runs\<close>



lemmas model_defs =
  synchronize_directories_def get_existing_directories_def is_directory_empty_def
  create_folder_with_info_def makedirs_def write_file_def rmtree_def listdir_def
  exists_path_def isdir_def is_file_def subscript_def print_def path_str_def info_text_def
  final_state_def not_empty_msg_def Let_def




lemma demo_rerun:
  "synchronize_directories demo_after [''OneDrive''] ''Spring 2024'' demo_courses =
     Inr (demo_after\<lparr>stdout := stdout demo_after @
       [not_empty_msg ''KEEP'']\<rparr>)"
  by (simp add: demo_courses_def demo_after_def model_defs)



section \<open>Properties\<close>

subsection \<open>The semester resolver\<close>

text \<open>
  C3. For every current date with month \<open>m\<close> and year \<open>y\<close>, the semester resolver returns
  "Spring y+1" when \<open>11 \<le> m \<le> 12\<close>, "Fall y" when \<open>6 \<le> m \<le> 10\<close> and "Summer y" when
  \<open>1 \<le> m \<le> 5\<close>; the year is written in decimal.
\<close>

theorem determine_semester_policy:
  "(11 \<le> m \<and> m \<le> 12 \<longrightarrow> determine_semester m y = ''Spring '' @ str_int (y + 1)) \<and>
   (6 \<le> m \<and> m \<le> 10 \<longrightarrow> determine_semester m y = ''Fall '' @ str_int y) \<and>
   (1 \<le> m \<and> m \<le> 5 \<longrightarrow> determine_semester m y = ''Summer '' @ str_int y)"
  by (simp add: determine_semester_def)

theorem determine_semester_policy_witness:
  "determine_semester 11 2023 = ''Spring 2024'' \<and>
   determine_semester 12 2023 = ''Spring 2024'' \<and>
   determine_semester 6 2024 = ''Fall 2024'' \<and>
   determine_semester 10 2024 = ''Fall 2024'' \<and>
   determine_semester 3 2024 = ''Summer 2024'' \<and>
   determine_semester 1 2024 = ''Summer 2024''"
proof -
  have y23: "str_int (2023 + 1) = ''2024''" and y24: "str_int 2024 = ''2024''"
    by (simp_all add: str_int_def digit_char_def)
  show ?thesis
    using determine_semester_policy [of 11 2023] determine_semester_policy [of 12 2023]
      determine_semester_policy [of 6 2024] determine_semester_policy [of 10 2024]
      determine_semester_policy [of 3 2024] determine_semester_policy [of 1 2024]
    by (simp add: y23 y24)
qed

subsection \<open>Folder provisioning\<close>



subsection \<open>Synchronisation\<close>














subsection \<open>The selection prompts\<close>




subsection \<open>The archive\<close>

text \<open>
  C8. For a source folder that does not hold the archive file itself, a completed
  \<^verbatim>\<open>archive_directory\<close> leaves one zip archive named after the folder, with \<^verbatim>\<open>.zip\<close>, in
  the archive directory. Its entries are the files under the source folder, at any
  depth, each under its path relative to the parent of the source folder, so that every
  archive name starts with the name of the folder. Writing the archive file is the only
  change made. The run completes when the archive directory exists and the name of the
  archive is not taken by a directory.
\<close>

theorem archive_directory_contents:
  assumes "isdir (tree s) dir_path"
    and "\<not> prefix dir_path (archive_path @ [basename dir_path @ ''.zip''])"
  shows "(\<forall>s'. archive_directory s dir_path archive_path = Inr s' \<longrightarrow>
            (\<exists>entries.
               lookup (tree s') (archive_path @ [basename dir_path @ ''.zip'']) = Some (File (Zip entries)) \<and>
               (\<forall>a d. (a, d) \<in> set entries \<longleftrightarrow>
                  (\<exists>r. r \<noteq> [] \<and> a = basename dir_path # r \<and>
                       lookup (tree s) (dir_path @ r) = Some (File d)))) \<and>
            muts s' = muts s @ [WriteFile (archive_path @ [basename dir_path @ ''.zip''])] \<and>
            (\<forall>q. \<not> prefix (archive_path @ [basename dir_path @ ''.zip'']) q \<and>
                 \<not> prefix q (archive_path @ [basename dir_path @ ''.zip'']) \<longrightarrow>
                 lookup (tree s') q = lookup (tree s) q)) \<and>
         ((\<exists>s'. archive_directory s dir_path archive_path = Inr s') \<longleftrightarrow>
            isdir (tree s) archive_path \<and>
            \<not> isdir (tree s) (archive_path @ [basename dir_path @ ''.zip'']))"
proof (cases "isdir (tree s) archive_path \<and> \<not> isdir (tree s) (archive_path @ [basename dir_path @ ''.zip''])")
  case True
  then have a: "\<not> isdir (tree s) (archive_path @ [basename dir_path @ ''.zip''])"
    and b: "isdir (tree s) archive_path" by simp_all
  have ne: "dir_path \<noteq> []" using assms(2) by auto
  from archive_directory_run [OF assms(1) ne assms(2) a b] obtain entries t2 where r:
    "\<forall>a d. (a, d) \<in> set entries \<longleftrightarrow>
        (\<exists>r. r \<noteq> [] \<and> a = basename dir_path # r \<and> lookup (tree s) (dir_path @ r) = Some (File d))"
    "lookup t2 (archive_path @ [basename dir_path @ ''.zip'']) = Some (File (Zip entries))"
    "\<forall>q. \<not> prefix (archive_path @ [basename dir_path @ ''.zip'']) q \<and>
          \<not> prefix q (archive_path @ [basename dir_path @ ''.zip'']) \<longrightarrow>
          lookup t2 q = lookup (tree s) q"
    "archive_directory s dir_path archive_path =
       Inr \<lparr>tree = t2,
            stdout = stdout s @ [''Archived '' @ [CHR 0x27] @ path_str dir_path @ [CHR 0x27] @ '' to '' @
                       [CHR 0x27] @ path_str (archive_path @ [basename dir_path @ ''.zip'']) @
                       [CHR 0x27] @ ''.''],
            muts = muts s @ [WriteFile (archive_path @ [basename dir_path @ ''.zip''])]\<rparr>"
    by blast
  have "\<exists>entries.
               lookup t2 (archive_path @ [basename dir_path @ ''.zip'']) = Some (File (Zip entries)) \<and>
               (\<forall>a d. (a, d) \<in> set entries \<longleftrightarrow>
                  (\<exists>r. r \<noteq> [] \<and> a = basename dir_path # r \<and>
                       lookup (tree s) (dir_path @ r) = Some (File d)))"
    using r(1,2) by blast
  then show ?thesis using True r(3) by (simp add: r(4))
next
  case False
  then obtain e where "archive_directory s dir_path archive_path = Inl (e, s)"
    using archive_directory_fails [of s archive_path dir_path] by blast
  then show ?thesis using False by simp
qed

theorem archive_directory_contents_witness:
  "archive_directory archive_demo [''Users'', ''OneDrive'', ''Fall 2023''] archive_path_main =
     Inr archive_demo_after \<and>
   lookup (tree archive_demo_after) [''Volumes'', ''Austin Disk'', ''UT Austin'', ''Fall 2023.zip''] =
     Some (File (Zip [([''Fall 2023'', ''syllabus.txt''], Text ''1''),
                      ([''Fall 2023'', ''CS314'', ''course_info.txt''], Text ''2'')])) \<and>
   muts archive_demo_after = [WriteFile [''Volumes'', ''Austin Disk'', ''UT Austin'', ''Fall 2023.zip'']] \<and>
   lookup (tree archive_demo_after) [''Users'', ''OneDrive'', ''Fall 2023''] =
     lookup (tree archive_demo) [''Users'', ''OneDrive'', ''Fall 2023'']"
proof -
  let ?d = "[''Users'', ''OneDrive'', ''Fall 2023'']"
  have 1: "isdir (tree archive_demo) ?d" by (simp add: archive_demo_def isdir_def)
  have 3: "\<not> prefix ?d (archive_path_main @ [basename ?d @ ''.zip''])"
    by (simp add: archive_path_main_def)
  note T = archive_directory_contents [OF 1 3]
  have frame: "lookup (tree archive_demo_after) ?d = lookup (tree archive_demo) ?d"
  proof -
    have "\<not> prefix (archive_path_main @ [basename ?d @ ''.zip'']) ?d \<and>
          \<not> prefix ?d (archive_path_main @ [basename ?d @ ''.zip''])"
      by (simp add: archive_path_main_def)
    then show ?thesis using T archive_demo_run by blast
  qed
  have z: "lookup (tree archive_demo_after) [''Volumes'', ''Austin Disk'', ''UT Austin'', ''Fall 2023.zip''] =
     Some (File (Zip [([''Fall 2023'', ''syllabus.txt''], Text ''1''),
                      ([''Fall 2023'', ''CS314'', ''course_info.txt''], Text ''2'')]))"
    by (simp add: archive_demo_after_def)
  have m: "muts archive_demo_after = muts archive_demo @ [WriteFile (archive_path_main @ [basename ?d @ ''.zip''])]"
    using T archive_demo_run by blast
  have "muts archive_demo_after = [WriteFile [''Volumes'', ''Austin Disk'', ''UT Austin'', ''Fall 2023.zip'']]"
    using m by (simp add: archive_demo_def archive_path_main_def basename_def)
  then show ?thesis using archive_demo_run frame z by simp
qed

end
